theory Spec2Isabelle
  imports
    Main
    "HOL-Library.Char_ord"
    "HOL-Library.List_Lexorder"
    "HOL-Library.Product_Lexorder"
    "HOL-Library.Multiset"
    "HOL-Library.Sublist"
begin

section \<open>Strings\<close>

text \<open>
  Python strings are modelled as \<open>string\<close> (a list of 8-bit characters); comparison of
  strings is lexicographic on the character codes, which is what \<open>Char_ord\<close> and
  \<open>List_Lexorder\<close> give.  \<open>s.startswith(p)\<close> compares the first \<open>len(p)\<close>
  characters of \<open>s\<close> with \<open>p\<close>.
\<close>

definition startswith :: "string \<Rightarrow> string \<Rightarrow> bool" where
  "startswith s p = (take (length p) s = p)"

text \<open>
  \<open>Series.str.contains(pat)\<close> for a pattern without regular-expression metacharacters
  (the source only passes \<open>"alt"\<close> and \<open>"fix"\<close>): the pattern occurs somewhere in the
  string, case-sensitively.
\<close>

fun str_contains :: "string \<Rightarrow> string \<Rightarrow> bool" where
  "str_contains [] pat = (pat = [])"
| "str_contains (c # cs) pat = (startswith (c # cs) pat \<or> str_contains cs pat)"

section \<open>Chromosome names\<close>

text \<open>\<open>normalize_chromosome\<close>, lines 27-31 of \<open>app.py\<close>.\<close>

definition normalize_chromosome :: "string \<Rightarrow> string" where
  "normalize_chromosome seq_region =
     (if startswith seq_region ''chr'' then seq_region else ''chr'' @ seq_region)"

text \<open>Decimal rendering of a natural number, as \<open>f"chr{i}"\<close> formats \<open>i\<close>.\<close>

function str_nat :: "nat \<Rightarrow> string" where
  "str_nat n =
     (if n < 10 then [char_of (48 + n)]
      else str_nat (n div 10) @ [char_of (48 + n mod 10)])"
  by pat_completeness auto
termination
  by (relation "measure (\<lambda>n. n)") auto

definition STANDARD_CHROMOSOMES :: "string list" where
  "STANDARD_CHROMOSOMES =
     map (\<lambda>i. ''chr'' @ str_nat i) [1..<23] @ [''chrX'', ''chrY'']"

definition is_standard_chromosome :: "string \<Rightarrow> bool" where
  "is_standard_chromosome chrom = (chrom \<in> set STANDARD_CHROMOSOMES)"

section \<open>Records found by the lookup\<close>

text \<open>
  The object that the Ensembl lookup returns for one symbol.  Each key may be absent, and
  \<open>fetch_gene_positions\<close> reads every one with \<open>dict.get\<close> and a default.
\<close>

record gene_data =
  seq_region_name :: "string option"
  gd_start :: "int option"
  gd_end :: "int option"
  gd_strand :: "int option"
  display_name :: "string option"

text \<open>The dictionary appended to \<open>found\<close>.\<close>

record found_gene =
  f_gene :: string
  f_chr :: string
  f_start :: int
  f_end :: int
  f_strand :: int
  f_is_standard :: bool

text \<open>
  Lines 70-87 of \<open>fetch_gene_positions\<close> (repeated at lines 98-114): the contig is
  normalised, a reversed coordinate pair is swapped, and the entry is built.
\<close>

definition found_entry :: "string \<Rightarrow> gene_data \<Rightarrow> found_gene" where
  "found_entry symbol gd =
     (let chrom = normalize_chromosome (case seq_region_name gd of None \<Rightarrow> [] | Some s \<Rightarrow> s);
          start = (case gd_start gd of None \<Rightarrow> 0 | Some v \<Rightarrow> v);
          end = (case gd_end gd of None \<Rightarrow> 0 | Some v \<Rightarrow> v);
          strand = (case gd_strand gd of None \<Rightarrow> 1 | Some v \<Rightarrow> v);
          swapped = (if start > end then (end, start) else (start, end))
      in \<lparr>f_gene = (case display_name gd of None \<Rightarrow> symbol | Some d \<Rightarrow> d),
          f_chr = chrom,
          f_start = fst swapped,
          f_end = snd swapped,
          f_strand = strand,
          f_is_standard = is_standard_chromosome chrom\<rparr>)"

section \<open>Data frames\<close>

text \<open>
  One row of the frame that \<open>generate_bed\<close> builds from the posted list of objects,
  restricted to the four columns that \<open>process_bed_file\<close> reads.  A key that an object
  does not carry is a missing cell (NaN) of its row: \<open>None\<close>.
\<close>

record row =
  r_chr :: "string option"
  r_start :: "int option"
  r_end :: "int option"
  r_gene :: "string option"

text \<open>The object posted for a found entry: the browser sends the entries back unchanged.\<close>

definition json_row :: "found_gene \<Rightarrow> row" where
  "json_row f =
     \<lparr>r_chr = Some (f_chr f), r_start = Some (f_start f), r_end = Some (f_end f),
      r_gene = Some (f_gene f)\<rparr>"

text \<open>
  A row whose \<open>start\<close> and \<open>end\<close> cells went through \<open>int(...)\<close> in the repair loop:
  both are integers from there on.
\<close>

record vrow =
  v_chr :: "string option"
  v_start :: int
  v_end :: int
  v_gene :: "string option"

definition row_of :: "vrow \<Rightarrow> row" where
  "row_of v =
     \<lparr>r_chr = v_chr v, r_start = Some (v_start v), r_end = Some (v_end v), r_gene = v_gene v\<rparr>"

text \<open>One row of the merged table, in the column order \<open>chr, start, end, gene\<close>.\<close>

record bed =
  b_chr :: "string option"
  b_start :: int
  b_end :: int
  b_gene :: string

text \<open>
  The exceptions of the modelled code: the \<open>HTTPException\<close>s that \<open>generate_bed\<close>
  raises (status code and detail), and the \<open>ValueError\<close> of \<open>int(float('nan'))\<close>.
\<close>

datatype error = HTTPException nat string | ValueError

section \<open>The steps of \<open>process_bed_file\<close>\<close>

subsection \<open>Removing unwanted contigs (lines 136-140)\<close>

text \<open>
  \<open>df[~df["chr"].str.contains(pat, na=False)]\<close>: a missing contig counts as not
  containing the pattern, so its row stays.
\<close>

definition chr_contains :: "string \<Rightarrow> row \<Rightarrow> bool" where
  "chr_contains pat r = (case r_chr r of None \<Rightarrow> False | Some c \<Rightarrow> str_contains c pat)"

definition remove_contigs :: "string \<Rightarrow> row list \<Rightarrow> row list" where
  "remove_contigs pat df = filter (\<lambda>r. \<not> chr_contains pat r) df"

definition filter_contigs :: "bool \<Rightarrow> bool \<Rightarrow> row list \<Rightarrow> row list" where
  "filter_contigs remove_alt remove_fix df =
     (let df1 = (if remove_alt then remove_contigs ''alt'' df else df);
          df2 = (if remove_fix then remove_contigs ''fix'' df1 else df1)
      in df2)"

subsection \<open>Fixing reversed coordinates (lines 142-148)\<close>

text \<open>
  The body of the loop for one row.  \<open>int(...)\<close> of a missing cell raises
  \<open>ValueError\<close>; the left operand of the comparison is evaluated first.
\<close>

definition fix_reverse_row :: "row \<Rightarrow> error + vrow" where
  "fix_reverse_row r =
     (case r_start r of
        None \<Rightarrow> Inl ValueError
      | Some s \<Rightarrow>
          (case r_end r of
             None \<Rightarrow> Inl ValueError
           | Some e \<Rightarrow>
               (if s > e
                then Inr \<lparr>v_chr = r_chr r, v_start = e, v_end = s, v_gene = r_gene r\<rparr>
                else Inr \<lparr>v_chr = r_chr r, v_start = s, v_end = e, v_gene = r_gene r\<rparr>)))"

fun fix_reverse :: "row list \<Rightarrow> error + vrow list" where
  "fix_reverse [] = Inr []"
| "fix_reverse (r # rs) =
     (case fix_reverse_row r of
        Inl e \<Rightarrow> Inl e
      | Inr v \<Rightarrow> (case fix_reverse rs of Inl e \<Rightarrow> Inl e | Inr vs \<Rightarrow> Inr (v # vs)))"

subsection \<open>Merging the entries of one gene (lines 150-155)\<close>

text \<open>
  \<open>groupby("gene")\<close> drops the rows without a label and orders the groups by their key;
  \<open>"first"\<close> is the first entry of the group that is not missing, \<open>"min"\<close> and
  \<open>"max"\<close> fold over the group.
\<close>

definition group_keys :: "vrow list \<Rightarrow> string list" where
  "group_keys df = sort (remdups (List.map_filter v_gene df))"

definition group_of :: "vrow list \<Rightarrow> string \<Rightarrow> vrow list" where
  "group_of df g = filter (\<lambda>r. v_gene r = Some g) df"

fun first_valid :: "'a option list \<Rightarrow> 'a option" where
  "first_valid [] = None"
| "first_valid (None # xs) = first_valid xs"
| "first_valid (Some x # xs) = Some x"

definition agg_group :: "vrow list \<Rightarrow> string \<Rightarrow> bed option" where
  "agg_group df g =
     (case group_of df g of
        [] \<Rightarrow> None
      | r # rs \<Rightarrow>
          Some \<lparr>b_chr = first_valid (map v_chr (r # rs)),
                b_start = fold min (map v_start rs) (v_start r),
                b_end = fold max (map v_end rs) (v_end r),
                b_gene = g\<rparr>)"

definition groupby_gene_agg :: "vrow list \<Rightarrow> bed list" where
  "groupby_gene_agg df = List.map_filter (agg_group df) (group_keys df)"

subsection \<open>Extending the regions (lines 157-163)\<close>

definition extend_regions :: "int \<Rightarrow> bed list \<Rightarrow> bed list" where
  "extend_regions extend_bp merged =
     (if extend_bp > 0 then
        (let m1 = map (\<lambda>m. m\<lparr>b_start := b_start m - extend_bp\<rparr>) merged;
             m2 = map (\<lambda>m. m\<lparr>b_end := b_end m + extend_bp\<rparr>) m1;
             m3 = map (\<lambda>m. m\<lparr>b_start := max (b_start m) 0\<rparr>) m2
         in m3)
      else merged)"

subsection \<open>Natural ordering of contig names\<close>

text \<open>
  \<open>index_natsorted\<close> comes from the \<open>natsort\<close> package, which is not part of the
  repository; its default algorithm is modelled here.  A string is split into runs of
  decimal digits and runs of other characters, a digit run becomes its integer value, and
  an empty string is put in front of a key that would start with a number.  A missing
  value gets the key of an empty string followed by minus infinity.  Keys are compared as
  Python compares tuples: position by position, a proper prefix first.
\<close>

datatype tok = Str string | NegInf | Num nat

definition is_digit :: "char \<Rightarrow> bool" where
  "is_digit c = (c \<in> set ''0123456789'')"

definition int_of_digits :: "string \<Rightarrow> nat" where
  "int_of_digits ds = foldl (\<lambda>n c. 10 * n + (of_char c - 48)) 0 ds"

function split_runs :: "string \<Rightarrow> tok list" where
  "split_runs [] = []"
| "split_runs (c # cs) =
     (if is_digit c
      then Num (int_of_digits (c # takeWhile is_digit cs)) # split_runs (dropWhile is_digit cs)
      else Str (c # takeWhile (\<lambda>d. \<not> is_digit d) cs)
             # split_runs (dropWhile (\<lambda>d. \<not> is_digit d) cs))"
  by pat_completeness auto
termination
  by (relation "measure length") (auto simp: length_dropWhile_le less_Suc_eq_le)

definition sep_inserter :: "tok list \<Rightarrow> tok list" where
  "sep_inserter ts = (case ts of Num n # _ \<Rightarrow> Str [] # ts | _ \<Rightarrow> ts)"

definition natsort_key :: "string option \<Rightarrow> tok list" where
  "natsort_key c = (case c of None \<Rightarrow> [Str [], NegInf] | Some s \<Rightarrow> sep_inserter (split_runs s))"

text \<open>
  A key alternates between strings and numbers: \<open>alternates b ts\<close> says so for the
  list \<open>ts\<close>, with \<open>b\<close> telling whether a string comes first.
\<close>

fun alternates :: "bool \<Rightarrow> tok list \<Rightarrow> bool" where
  "alternates b [] = True"
| "alternates b (Str s # ts) = (b \<and> alternates False ts)"
| "alternates b (NegInf # ts) = (\<not> b \<and> alternates True ts)"
| "alternates b (Num n # ts) = (\<not> b \<and> alternates True ts)"

text \<open>
  The order of the key components: strings by character codes, numbers by value with
  minus infinity below every integer.  Python never compares a string with a number here,
  because every key starts with a string and alternates (\<open>natsort_key_alternates\<close>
  below); the order puts strings first.
\<close>

instantiation tok :: linorder
begin

fun less_eq_tok :: "tok \<Rightarrow> tok \<Rightarrow> bool" where
  "less_eq_tok (Str a) (Str b) = (a \<le> b)"
| "less_eq_tok (Str a) NegInf = True"
| "less_eq_tok (Str a) (Num n) = True"
| "less_eq_tok NegInf (Str b) = False"
| "less_eq_tok NegInf NegInf = True"
| "less_eq_tok NegInf (Num n) = True"
| "less_eq_tok (Num m) (Str b) = False"
| "less_eq_tok (Num m) NegInf = False"
| "less_eq_tok (Num m) (Num n) = (m \<le> n)"

definition less_tok :: "tok \<Rightarrow> tok \<Rightarrow> bool" where
  "less_tok a b = (a \<le> b \<and> \<not> b \<le> a)"

instance
proof
  fix x y z :: tok
  show "(x < y) = (x \<le> y \<and> \<not> y \<le> x)"
    by (simp add: less_tok_def)
  show "x \<le> x"
    by (cases x) simp_all
  show "x \<le> y \<Longrightarrow> y \<le> z \<Longrightarrow> x \<le> z"
    by (cases x; cases y; cases z) simp_all
  show "x \<le> y \<Longrightarrow> y \<le> x \<Longrightarrow> x = y"
    by (cases x; cases y) simp_all
  show "x \<le> y \<or> y \<le> x"
    by (cases x; cases y) auto
qed

end

subsection \<open>Sorting (lines 168-173)\<close>

text \<open>
  \<open>index_natsorted(col)\<close> lists the positions of \<open>col\<close> in natural order (a stable
  sort of the enumerated values), and \<open>np.argsort\<close> of that list gives every position its
  rank.  \<open>sort_values\<close> then orders the rows by the pair of that rank and \<open>start\<close>.
  The first \<open>sort_values(by="start")\<close> is modelled by a stable sort: the order that
  pandas leaves among rows of equal start is not fixed by its default algorithm, and the
  order of the output proved below does not depend on it.
\<close>

definition index_natsorted :: "string option list \<Rightarrow> nat list" where
  "index_natsorted col = map fst (sort_key (\<lambda>(i, c). natsort_key c) (enumerate 0 col))"

definition argsort :: "nat list \<Rightarrow> nat list" where
  "argsort xs = map fst (sort_key snd (enumerate 0 xs))"

definition sort_values_start :: "bed list \<Rightarrow> bed list" where
  "sort_values_start merged = sort_key b_start merged"

definition sort_values_chr_start :: "bed list \<Rightarrow> bed list" where
  "sort_values_chr_start merged =
     (let chr_key = argsort (index_natsorted (map b_chr merged));
          keys = zip chr_key (map b_start merged)
      in map snd (sort_key fst (zip keys merged)))"

section \<open>\<open>process_bed_file\<close> (lines 126-175)\<close>

text \<open>
  The frame is the list of its rows; as the docstring requires, it has the columns
  \<open>chr\<close>, \<open>start\<close>, \<open>end\<close> and \<open>gene\<close>, and a cell of a row may be missing.
\<close>

definition process_bed_file :: "row list \<Rightarrow> int \<Rightarrow> bool \<Rightarrow> bool \<Rightarrow> error + bed list" where
  "process_bed_file df extend_bp remove_alt remove_fix =
     (case fix_reverse (filter_contigs remove_alt remove_fix df) of
        Inl e \<Rightarrow> Inl e
      | Inr df' \<Rightarrow>
          Inr (sort_values_chr_start
                (sort_values_start (extend_regions extend_bp (groupby_gene_agg df')))))"

section \<open>\<open>generate_bed\<close> (lines 681-724)\<close>

text \<open>
  The request carries the text \<open>genes_json\<close>; \<open>None\<close> stands for a text that
  \<open>json.loads\<close> rejects, \<open>Some genes\<close> for the parsed list of objects.  A column of the
  frame exists when at least one object carries its key.  The result is the list of the
  lines written to the file.
\<close>

definition has_key :: "string \<Rightarrow> row \<Rightarrow> bool" where
  "has_key col r =
     (if col = ''chr'' then r_chr r \<noteq> None
      else if col = ''start'' then r_start r \<noteq> None
      else if col = ''end'' then r_end r \<noteq> None
      else if col = ''gene'' then r_gene r \<noteq> None
      else False)"

definition in_columns :: "string \<Rightarrow> row list \<Rightarrow> bool" where
  "in_columns col genes = (\<exists>r \<in> set genes. has_key col r)"

definition required_cols :: "string list" where
  "required_cols = [''chr'', ''start'', ''end'', ''gene'']"

definition generate_bed :: "row list option \<Rightarrow> int \<Rightarrow> error + bed list" where
  "generate_bed genes_json extend_bp =
     (case genes_json of
        None \<Rightarrow> Inl (HTTPException 400 ''Invalid JSON format'')
      | Some genes \<Rightarrow>
          if genes = [] then Inl (HTTPException 400 ''No genes provided'')
          else (case find (\<lambda>col. \<not> in_columns col genes) required_cols of
                  Some col \<Rightarrow> Inl (HTTPException 400 (''Missing column: '' @ col))
                | None \<Rightarrow> process_bed_file genes extend_bp False False))"

section \<open>Properties of the strings\<close>

lemma startswith_prefix: "startswith s p \<longleftrightarrow> prefix p s"
proof
  assume "startswith s p"
  then have "take (length p) s = p" by (simp add: startswith_def)
  then show "prefix p s" by (metis take_is_prefix)
next
  assume "prefix p s"
  then obtain zs where "s = p @ zs" by (auto simp: prefix_def)
  then show "startswith s p" by (simp add: startswith_def)
qed

lemma str_contains_sublist: "str_contains s pat \<longleftrightarrow> sublist pat s"
  by (induction s) (auto simp: startswith_prefix sublist_Cons_right)

section \<open>Normalisation of contig names\<close>

text \<open>
  Claim C9.  Normalising a contig name is idempotent: a name that already starts with the
  literal prefix \<open>chr\<close> is returned unchanged, any other name gets \<open>chr\<close> prepended,
  and normalising a normalised name changes nothing.
\<close>

theorem normalize_chromosome_idempotent:
  "normalize_chromosome (normalize_chromosome c) = normalize_chromosome c
   \<and> (prefix ''chr'' c \<longrightarrow> normalize_chromosome c = c)
   \<and> (\<not> prefix ''chr'' c \<longrightarrow> normalize_chromosome c = ''chr'' @ c)"
  by (simp add: normalize_chromosome_def startswith_prefix)

theorem normalize_chromosome_idempotent_witness:
  "prefix ''chr'' ''chr17'' \<and> normalize_chromosome ''chr17'' = ''chr17''
   \<and> \<not> prefix ''chr'' ''17'' \<and> normalize_chromosome ''17'' = ''chr17''
   \<and> normalize_chromosome (normalize_chromosome ''17'') = normalize_chromosome ''17''"
  using normalize_chromosome_idempotent [of "''chr17''"]
    normalize_chromosome_idempotent [of "''17''"]
  by simp

section \<open>The repair of reversed coordinates\<close>

lemma fix_reverse_row_ordered:
  "fix_reverse_row r = Inr v \<Longrightarrow> v_start v \<le> v_end v"
  by (auto simp: fix_reverse_row_def split: option.splits if_splits)

lemma fix_reverse_row_again:
  "fix_reverse_row r = Inr v \<Longrightarrow> fix_reverse_row (row_of v) = Inr v"
  by (auto simp: fix_reverse_row_def row_of_def split: option.splits if_splits)

text \<open>
  Claim C7.  After the repair loop every row has \<open>start \<le> end\<close>, and running the loop
  again on the repaired rows succeeds and returns them unchanged.
\<close>

theorem fix_reverse_ordered_idempotent:
  "fix_reverse df = Inr vs \<Longrightarrow>
     (\<forall>v \<in> set vs. v_start v \<le> v_end v) \<and> fix_reverse (map row_of vs) = Inr vs"
proof (induction df arbitrary: vs)
  case Nil
  then show ?case by simp
next
  case (Cons r rs)
  from Cons.prems obtain v vs' where
    v: "fix_reverse_row r = Inr v" and vs': "fix_reverse rs = Inr vs'" and eq: "vs = v # vs'"
    by (auto split: sum.splits)
  from Cons.IH [OF vs'] fix_reverse_row_ordered [OF v] fix_reverse_row_again [OF v] eq
  show ?case by simp
qed

theorem fix_reverse_ordered_idempotent_witness:
  "fix_reverse
     [\<lparr>r_chr = Some ''chr17'', r_start = Some 100, r_end = Some 50, r_gene = Some ''A''\<rparr>,
      \<lparr>r_chr = Some ''chr17'', r_start = Some 30, r_end = Some 80, r_gene = Some ''A''\<rparr>]
     = Inr [\<lparr>v_chr = Some ''chr17'', v_start = 50, v_end = 100, v_gene = Some ''A''\<rparr>,
            \<lparr>v_chr = Some ''chr17'', v_start = 30, v_end = 80, v_gene = Some ''A''\<rparr>]
   \<and> v_start \<lparr>v_chr = Some ''chr17'', v_start = 50, v_end = 100, v_gene = Some ''A''\<rparr>
       \<le> v_end \<lparr>v_chr = Some ''chr17'', v_start = 50, v_end = 100, v_gene = Some ''A''\<rparr>
   \<and> v_start \<lparr>v_chr = Some ''chr17'', v_start = 30, v_end = 80, v_gene = Some ''A''\<rparr>
       \<le> v_end \<lparr>v_chr = Some ''chr17'', v_start = 30, v_end = 80, v_gene = Some ''A''\<rparr>
   \<and> fix_reverse (map row_of
         [\<lparr>v_chr = Some ''chr17'', v_start = 50, v_end = 100, v_gene = Some ''A''\<rparr>,
          \<lparr>v_chr = Some ''chr17'', v_start = 30, v_end = 80, v_gene = Some ''A''\<rparr>])
     = Inr [\<lparr>v_chr = Some ''chr17'', v_start = 50, v_end = 100, v_gene = Some ''A''\<rparr>,
            \<lparr>v_chr = Some ''chr17'', v_start = 30, v_end = 80, v_gene = Some ''A''\<rparr>]"
proof -
  have run: "fix_reverse
     [\<lparr>r_chr = Some ''chr17'', r_start = Some 100, r_end = Some 50, r_gene = Some ''A''\<rparr>,
      \<lparr>r_chr = Some ''chr17'', r_start = Some 30, r_end = Some 80, r_gene = Some ''A''\<rparr>]
     = Inr [\<lparr>v_chr = Some ''chr17'', v_start = 50, v_end = 100, v_gene = Some ''A''\<rparr>,
            \<lparr>v_chr = Some ''chr17'', v_start = 30, v_end = 80, v_gene = Some ''A''\<rparr>]"
    by (simp add: fix_reverse_row_def)
  from fix_reverse_ordered_idempotent [OF run] run show ?thesis
    by simp
qed

lemma fix_reverse_error: "fix_reverse df = Inl err \<Longrightarrow> err = ValueError"
proof (induction df)
  case Nil
  then show ?case by simp
next
  case (Cons r rs)
  then show ?case
    by (auto simp: fix_reverse_row_def split: sum.splits option.splits if_splits)
qed

section \<open>The contig filter\<close>

lemma chr_contains_iff:
  "chr_contains pat r \<longleftrightarrow> (\<exists>c. r_chr r = Some c \<and> sublist pat c)"
  by (simp add: chr_contains_def str_contains_sublist split: option.splits)

lemma filter_contigs_eq:
  "filter_contigs remove_alt remove_fix df =
     filter (\<lambda>r. \<not> (remove_alt \<and> chr_contains ''alt'' r)
               \<and> \<not> (remove_fix \<and> chr_contains ''fix'' r)) df"
  by (auto simp: filter_contigs_def remove_contigs_def Let_def intro: filter_cong)

text \<open>
  Claim C8.  The filter keeps exactly the rows that neither flag removes: a row goes when
  \<open>remove_alt\<close> is set and \<open>alt\<close> occurs in its contig, or when \<open>remove_fix\<close> is set
  and \<open>fix\<close> occurs in its contig; a flag that is off removes nothing.  A row on
  \<open>chr19_GL000209v2_alt\<close> is dropped with \<open>remove_alt\<close> and kept without it.
\<close>

theorem filter_contigs_exact:
  "filter_contigs remove_alt remove_fix df =
     filter (\<lambda>r. \<not> (remove_alt \<and> (\<exists>c. r_chr r = Some c \<and> sublist ''alt'' c))
               \<and> \<not> (remove_fix \<and> (\<exists>c. r_chr r = Some c \<and> sublist ''fix'' c))) df
   \<and> filter_contigs True remove_fix
        [\<lparr>r_chr = Some ''chr19_GL000209v2_alt'', r_start = s, r_end = e, r_gene = g\<rparr>] = []
   \<and> filter_contigs False remove_fix
        [\<lparr>r_chr = Some ''chr19_GL000209v2_alt'', r_start = s, r_end = e, r_gene = g\<rparr>]
      = [\<lparr>r_chr = Some ''chr19_GL000209v2_alt'', r_start = s, r_end = e, r_gene = g\<rparr>]"
proof -
  have a: "str_contains ''chr19_GL000209v2_alt'' ''alt''"
    by (simp add: startswith_def)
  have f: "\<not> str_contains ''chr19_GL000209v2_alt'' ''fix''"
    by (simp add: startswith_def)
  show ?thesis
    using a f by (simp add: filter_contigs_eq chr_contains_iff [symmetric] chr_contains_def)
qed

theorem filter_contigs_exact_witness:
  "filter_contigs True True
     [\<lparr>r_chr = Some ''chr19_GL000209v2_alt'', r_start = Some 5, r_end = Some 9,
       r_gene = Some ''G''\<rparr>] = []
   \<and> filter_contigs False True
     [\<lparr>r_chr = Some ''chr19_GL000209v2_alt'', r_start = Some 5, r_end = Some 9,
       r_gene = Some ''G''\<rparr>]
     = [\<lparr>r_chr = Some ''chr19_GL000209v2_alt'', r_start = Some 5, r_end = Some 9,
         r_gene = Some ''G''\<rparr>]"
  using filter_contigs_exact [of True True "[]" "Some 5" "Some 9" "Some ''G''"]
    filter_contigs_exact [of False True "[]" "Some 5" "Some 9" "Some ''G''"]
  by simp

section \<open>The extension step\<close>

lemma extend_regions_labels:
  "map (\<lambda>m. (b_chr m, b_gene m)) (extend_regions extend_bp merged)
     = map (\<lambda>m. (b_chr m, b_gene m)) merged"
  by (simp add: extend_regions_def Let_def comp_def)

lemma extend_regions_pos:
  "0 < extend_bp \<Longrightarrow> extend_regions extend_bp merged =
     map (\<lambda>m. \<lparr>b_chr = b_chr m, b_start = max 0 (b_start m - extend_bp),
                b_end = b_end m + extend_bp, b_gene = b_gene m\<rparr>) merged"
  by (simp add: extend_regions_def Let_def comp_def max.commute)

text \<open>
  Claim C6.  With \<open>extend_bp > 0\<close> every merged interval gets
  \<open>start := max(0, start - extend_bp)\<close> and \<open>end := end + extend_bp\<close>, the clamp at zero
  acting on each interval by itself and the end unbounded; with \<open>extend_bp = 0\<close> the
  table is unchanged.  \<open>(5, 50)\<close> becomes \<open>(0, 60)\<close> and \<open>(100, 200)\<close> becomes
  \<open>(90, 210)\<close> for \<open>extend_bp = 10\<close>.
\<close>

theorem extend_regions_clamp:
  "(0 < extend_bp \<longrightarrow> extend_regions extend_bp merged =
      map (\<lambda>m. \<lparr>b_chr = b_chr m, b_start = max 0 (b_start m - extend_bp),
                 b_end = b_end m + extend_bp, b_gene = b_gene m\<rparr>) merged)
   \<and> extend_regions 0 merged = merged
   \<and> extend_regions 10 [\<lparr>b_chr = c, b_start = 5, b_end = 50, b_gene = g\<rparr>,
                         \<lparr>b_chr = c', b_start = 100, b_end = 200, b_gene = g'\<rparr>]
      = [\<lparr>b_chr = c, b_start = 0, b_end = 60, b_gene = g\<rparr>,
         \<lparr>b_chr = c', b_start = 90, b_end = 210, b_gene = g'\<rparr>]"
  by (simp add: extend_regions_pos) (simp add: extend_regions_def)

theorem extend_regions_clamp_witness:
  "(0::int) < 10
   \<and> extend_regions 10 [\<lparr>b_chr = Some ''chr1'', b_start = 5, b_end = 50, b_gene = ''A''\<rparr>,
                         \<lparr>b_chr = Some ''chr2'', b_start = 100, b_end = 200, b_gene = ''B''\<rparr>]
      = [\<lparr>b_chr = Some ''chr1'', b_start = 0, b_end = 60, b_gene = ''A''\<rparr>,
         \<lparr>b_chr = Some ''chr2'', b_start = 90, b_end = 210, b_gene = ''B''\<rparr>]
   \<and> extend_regions 0 [\<lparr>b_chr = Some ''chr1'', b_start = 5, b_end = 50, b_gene = ''A''\<rparr>]
      = [\<lparr>b_chr = Some ''chr1'', b_start = 5, b_end = 50, b_gene = ''A''\<rparr>]"
  using extend_regions_clamp [of 10
      "[\<lparr>b_chr = Some ''chr1'', b_start = 5, b_end = 50, b_gene = ''A''\<rparr>,
        \<lparr>b_chr = Some ''chr2'', b_start = 100, b_end = 200, b_gene = ''B''\<rparr>]"]
    extend_regions_clamp [of 0
      "[\<lparr>b_chr = Some ''chr1'', b_start = 5, b_end = 50, b_gene = ''A''\<rparr>]"]
  by simp

text \<open>
  Claim C10.  The extension step touches \<open>start\<close> and \<open>end\<close> only: the contig and
  label pairs of the rows, counted with multiplicity, and the number of rows are the same
  before and after it.
\<close>

theorem extend_regions_frame:
  "mset (map (\<lambda>m. (b_chr m, b_gene m)) (extend_regions extend_bp merged))
     = mset (map (\<lambda>m. (b_chr m, b_gene m)) merged)
   \<and> length (extend_regions extend_bp merged) = length merged"
proof
  show "mset (map (\<lambda>m. (b_chr m, b_gene m)) (extend_regions extend_bp merged))
     = mset (map (\<lambda>m. (b_chr m, b_gene m)) merged)"
    by (simp only: extend_regions_labels)
  show "length (extend_regions extend_bp merged) = length merged"
    by (simp add: extend_regions_def Let_def)
qed

theorem extend_regions_frame_witness:
  "mset (map (\<lambda>m. (b_chr m, b_gene m))
      (extend_regions 10 [\<lparr>b_chr = Some ''chr1'', b_start = 5, b_end = 50, b_gene = ''A''\<rparr>]))
     = {#(Some ''chr1'', ''A'')#}
   \<and> length (extend_regions 10
        [\<lparr>b_chr = Some ''chr1'', b_start = 5, b_end = 50, b_gene = ''A''\<rparr>]) = 1"
  using extend_regions_frame [of 10
      "[\<lparr>b_chr = Some ''chr1'', b_start = 5, b_end = 50, b_gene = ''A''\<rparr>]"]
  by simp

section \<open>Errors and empty tables\<close>

lemma process_bed_file_error:
  "process_bed_file df extend_bp remove_alt remove_fix = Inl err \<Longrightarrow> err = ValueError"
  by (auto simp: process_bed_file_def dest: fix_reverse_error split: sum.splits)

lemma groupby_gene_agg_Nil: "groupby_gene_agg [] = []"
  by (simp add: groupby_gene_agg_def group_keys_def List.map_filter_simps)

lemma sort_values_chr_start_Nil: "sort_values_chr_start [] = []"
  by (simp add: sort_values_chr_start_def)

lemma process_bed_file_all_filtered:
  "filter_contigs remove_alt remove_fix df = [] \<Longrightarrow>
     process_bed_file df extend_bp remove_alt remove_fix = Inr []"
  by (simp add: process_bed_file_def groupby_gene_agg_Nil extend_regions_def
      sort_values_start_def sort_values_chr_start_Nil)

text \<open>
  Claim C1 says that a batch which the contig filter empties makes the call fail with an
  error of its own.  \<open>process_bed_file\<close> raises nothing there: one record on an
  \<open>alt\<close> contig, with both filters on, gives the empty table.
\<close>

theorem process_bed_file_everything_filtered_counterexample:
  "process_bed_file
     [\<lparr>r_chr = Some ''chr19_GL000209v2_alt'', r_start = Some 5, r_end = Some 9,
       r_gene = Some ''G''\<rparr>] 0 True True = Inr []"
  by code_simp

text \<open>
  Claim C1, amended.  When the contig filter drops every record, \<open>process_bed_file\<close>
  returns the empty table and raises no error.  The only rejection of an empty input is
  the one of \<open>generate_bed\<close>, for a posted list without any record: status 400,
  \<open>No genes provided\<close>.
\<close>

theorem process_bed_file_everything_filtered:
  "\<forall>r \<in> set df. (remove_alt \<and> (\<exists>c. r_chr r = Some c \<and> sublist ''alt'' c))
                 \<or> (remove_fix \<and> (\<exists>c. r_chr r = Some c \<and> sublist ''fix'' c)) \<Longrightarrow>
   process_bed_file df extend_bp remove_alt remove_fix = Inr []
   \<and> generate_bed (Some []) extend_bp = Inl (HTTPException 400 ''No genes provided'')"
proof
  assume all: "\<forall>r \<in> set df. (remove_alt \<and> (\<exists>c. r_chr r = Some c \<and> sublist ''alt'' c))
                 \<or> (remove_fix \<and> (\<exists>c. r_chr r = Some c \<and> sublist ''fix'' c))"
  then have "filter_contigs remove_alt remove_fix df = []"
    by (auto simp: filter_contigs_eq chr_contains_iff filter_empty_conv)
  then show "process_bed_file df extend_bp remove_alt remove_fix = Inr []"
    by (rule process_bed_file_all_filtered)
next
  show "generate_bed (Some []) extend_bp = Inl (HTTPException 400 ''No genes provided'')"
    by (simp add: generate_bed_def)
qed

theorem process_bed_file_everything_filtered_witness:
  "sublist ''alt'' ''chr1_alt_scaffold''
   \<and> process_bed_file
       [\<lparr>r_chr = Some ''chr1_alt_scaffold'', r_start = Some 7, r_end = Some 3,
         r_gene = Some ''G''\<rparr>] 1000 True False = Inr []
   \<and> generate_bed (Some []) 1000 = Inl (HTTPException 400 ''No genes provided'')"
proof -
  have s: "sublist ''alt'' ''chr1_alt_scaffold''"
    unfolding str_contains_sublist [symmetric] by (simp add: startswith_def)
  have "\<forall>r \<in> set [\<lparr>r_chr = Some ''chr1_alt_scaffold'', r_start = Some 7, r_end = Some 3,
                     r_gene = Some ''G''\<rparr>].
          (True \<and> (\<exists>c. r_chr r = Some c \<and> sublist ''alt'' c))
          \<or> (False \<and> (\<exists>c. r_chr r = Some c \<and> sublist ''fix'' c))"
    using s by simp
  from process_bed_file_everything_filtered [OF this, of 1000] s show ?thesis
    by simp
qed

text \<open>
  Claim C2 says that one record without a required field aborts the whole call.  A record
  without a label, posted next to a complete record, aborts nothing: \<open>generate_bed\<close>
  finds all four columns in the frame, grouping drops the row without a label, and the
  file is written from the other record.
\<close>

theorem generate_bed_missing_column_counterexample:
  "generate_bed
     (Some [\<lparr>r_chr = Some ''chr1'', r_start = Some 10, r_end = Some 20, r_gene = Some ''A''\<rparr>,
            \<lparr>r_chr = Some ''chr1'', r_start = Some 5, r_end = Some 8, r_gene = None\<rparr>]) 0
   = Inr [\<lparr>b_chr = Some ''chr1'', b_start = 10, b_end = 20, b_gene = ''A''\<rparr>]"
  by code_simp

lemma fix_reverse_row_ValueError:
  "fix_reverse_row r = Inl ValueError \<longleftrightarrow> r_start r = None \<or> r_end r = None"
  by (auto simp: fix_reverse_row_def split: option.splits)

lemma fix_reverse_ValueError:
  "fix_reverse df = Inl ValueError \<longleftrightarrow> (\<exists>r \<in> set df. r_start r = None \<or> r_end r = None)"
proof (induction df)
  case Nil
  then show ?case by simp
next
  case (Cons r rs)
  show ?case
  proof (cases "fix_reverse_row r")
    case (Inl e)
    then have "e = ValueError"
      by (auto simp: fix_reverse_row_def split: option.splits if_splits)
    with Inl fix_reverse_row_ValueError [of r] show ?thesis by simp
  next
    case (Inr v)
    then have "\<not> (r_start r = None \<or> r_end r = None)"
      using fix_reverse_row_ValueError [of r] by simp
    with Inr Cons.IH show ?thesis
      by (auto split: sum.splits)
  qed
qed

lemma process_bed_file_unfiltered_ValueError:
  "process_bed_file genes extend_bp False False = Inl ValueError
     \<longleftrightarrow> (\<exists>r \<in> set genes. r_start r = None \<or> r_end r = None)"
proof -
  have "process_bed_file genes extend_bp False False = Inl ValueError
          \<longleftrightarrow> fix_reverse genes = Inl ValueError"
    by (simp add: process_bed_file_def filter_contigs_def split: sum.splits)
  then show ?thesis
    by (simp add: fix_reverse_ValueError)
qed

lemma in_columns_fields:
  "in_columns ''chr'' genes \<longleftrightarrow> \<not> (\<forall>r \<in> set genes. r_chr r = None)"
  "in_columns ''start'' genes \<longleftrightarrow> \<not> (\<forall>r \<in> set genes. r_start r = None)"
  "in_columns ''end'' genes \<longleftrightarrow> \<not> (\<forall>r \<in> set genes. r_end r = None)"
  "in_columns ''gene'' genes \<longleftrightarrow> \<not> (\<forall>r \<in> set genes. r_gene r = None)"
  by (simp_all add: in_columns_def has_key_def)

lemma generate_bed_column_check:
  "genes \<noteq> [] \<Longrightarrow>
     generate_bed (Some genes) extend_bp =
       (if \<forall>r \<in> set genes. r_chr r = None
          then Inl (HTTPException 400 ''Missing column: chr'')
        else if \<forall>r \<in> set genes. r_start r = None
          then Inl (HTTPException 400 ''Missing column: start'')
        else if \<forall>r \<in> set genes. r_end r = None
          then Inl (HTTPException 400 ''Missing column: end'')
        else if \<forall>r \<in> set genes. r_gene r = None
          then Inl (HTTPException 400 ''Missing column: gene'')
        else process_bed_file genes extend_bp False False)"
  by (simp add: generate_bed_def required_cols_def in_columns_fields)

text \<open>
  Claim C2, amended.  For a posted list with at least one record, \<open>generate_bed\<close>
  aborts the whole call and produces no output in two cases.  When one of the four required
  fields is carried by none of the records, it fails with status 400 and
  \<open>Missing column\<close>, naming the first such field in the order \<open>chr\<close>,
  \<open>start\<close>, \<open>end\<close>, \<open>gene\<close>.  Otherwise it hands the batch to
  \<open>process_bed_file\<close>, and when any single record lacks \<open>start\<close> or \<open>end\<close>
  the repair loop raises \<open>ValueError\<close>.
\<close>

theorem generate_bed_missing_column:
  "genes \<noteq> [] \<Longrightarrow>
     generate_bed (Some genes) extend_bp =
       (if \<forall>r \<in> set genes. r_chr r = None
          then Inl (HTTPException 400 ''Missing column: chr'')
        else if \<forall>r \<in> set genes. r_start r = None
          then Inl (HTTPException 400 ''Missing column: start'')
        else if \<forall>r \<in> set genes. r_end r = None
          then Inl (HTTPException 400 ''Missing column: end'')
        else if \<forall>r \<in> set genes. r_gene r = None
          then Inl (HTTPException 400 ''Missing column: gene'')
        else process_bed_file genes extend_bp False False)
     \<and> ((\<exists>r \<in> set genes. r_start r = None \<or> r_end r = None) \<longrightarrow>
          process_bed_file genes extend_bp False False = Inl ValueError
          \<and> (\<exists>err. generate_bed (Some genes) extend_bp = Inl err))"
proof
  assume ne: "genes \<noteq> []"
  then show "generate_bed (Some genes) extend_bp =
       (if \<forall>r \<in> set genes. r_chr r = None
          then Inl (HTTPException 400 ''Missing column: chr'')
        else if \<forall>r \<in> set genes. r_start r = None
          then Inl (HTTPException 400 ''Missing column: start'')
        else if \<forall>r \<in> set genes. r_end r = None
          then Inl (HTTPException 400 ''Missing column: end'')
        else if \<forall>r \<in> set genes. r_gene r = None
          then Inl (HTTPException 400 ''Missing column: gene'')
        else process_bed_file genes extend_bp False False)"
    by (rule generate_bed_column_check)
  show "(\<exists>r \<in> set genes. r_start r = None \<or> r_end r = None) \<longrightarrow>
          process_bed_file genes extend_bp False False = Inl ValueError
          \<and> (\<exists>err. generate_bed (Some genes) extend_bp = Inl err)"
  proof
    assume lack: "\<exists>r \<in> set genes. r_start r = None \<or> r_end r = None"
    then have pe: "process_bed_file genes extend_bp False False = Inl ValueError"
      by (simp only: process_bed_file_unfiltered_ValueError)
    have "\<exists>err. generate_bed (Some genes) extend_bp = Inl err"
      unfolding generate_bed_column_check [OF ne] using pe by simp
    with pe show "process_bed_file genes extend_bp False False = Inl ValueError
          \<and> (\<exists>err. generate_bed (Some genes) extend_bp = Inl err)"
      by simp
  qed
qed

theorem generate_bed_missing_column_witness:
  "generate_bed
     (Some [\<lparr>r_chr = Some ''chr1'', r_start = Some 10, r_end = Some 20, r_gene = Some ''A''\<rparr>,
            \<lparr>r_chr = Some ''chr2'', r_start = None, r_end = Some 8, r_gene = Some ''B''\<rparr>]) 0
     = Inl ValueError
   \<and> generate_bed
     (Some [\<lparr>r_chr = Some ''chr1'', r_start = Some 10, r_end = None, r_gene = None\<rparr>,
            \<lparr>r_chr = Some ''chr2'', r_start = Some 5, r_end = None, r_gene = None\<rparr>]) 0
     = Inl (HTTPException 400 ''Missing column: end'')"
  using generate_bed_missing_column [of
      "[\<lparr>r_chr = Some ''chr1'', r_start = Some 10, r_end = Some 20, r_gene = Some ''A''\<rparr>,
        \<lparr>r_chr = Some ''chr2'', r_start = None, r_end = Some 8, r_gene = Some ''B''\<rparr>]" 0]
    generate_bed_missing_column [of
      "[\<lparr>r_chr = Some ''chr1'', r_start = Some 10, r_end = None, r_gene = None\<rparr>,
        \<lparr>r_chr = Some ''chr2'', r_start = Some 5, r_end = None, r_gene = None\<rparr>]" 0]
  by simp

section \<open>The end-to-end scenario\<close>

text \<open>
  Claim C3 says that the records \<open>(A, 17, 100, 50)\<close> and \<open>(A, chr17, 30, 80)\<close>
  give the row \<open>(chr17, 30, 100, A)\<close>.  \<open>process_bed_file\<close> does not normalise
  contig names: the first member of the group gives the merged row its contig as it was
  passed in, which is \<open>17\<close>.
\<close>

theorem end_to_end_scenario_counterexample:
  "process_bed_file
     [\<lparr>r_chr = Some ''17'', r_start = Some 100, r_end = Some 50, r_gene = Some ''A''\<rparr>,
      \<lparr>r_chr = Some ''chr17'', r_start = Some 30, r_end = Some 80, r_gene = Some ''A''\<rparr>]
     0 True True
   = Inr [\<lparr>b_chr = Some ''17'', b_start = 30, b_end = 100, b_gene = ''A''\<rparr>]"
  by code_simp

text \<open>
  Claim C3, amended.  With the contig of each of the two records normalised by
  \<open>normalize_chromosome\<close> first, and the coordinates left as they are,
  \<open>process_bed_file\<close> with \<open>extend_bp = 0\<close> and both filters on repairs the reversed
  pair, merges the two records and returns the single row \<open>(chr17, 30, 100, A)\<close>.
\<close>

theorem end_to_end_scenario:
  "process_bed_file
     [\<lparr>r_chr = Some (normalize_chromosome ''17''), r_start = Some 100, r_end = Some 50,
       r_gene = Some ''A''\<rparr>,
      \<lparr>r_chr = Some (normalize_chromosome ''chr17''), r_start = Some 30, r_end = Some 80,
       r_gene = Some ''A''\<rparr>]
     0 True True
   = Inr [\<lparr>b_chr = Some ''chr17'', b_start = 30, b_end = 100, b_gene = ''A''\<rparr>]"
  by code_simp

text \<open>
  The route of the application: the lookup builds its entries with the contig normalised
  and the pair already swapped, and the entries are posted back to \<open>generate_bed\<close>.
\<close>

lemma lookup_then_process_bed_file:
  "process_bed_file
     (map (json_row \<circ> found_entry ''A'')
        [\<lparr>seq_region_name = Some ''17'', gd_start = Some 100, gd_end = Some 50,
          gd_strand = Some 1, display_name = Some ''A''\<rparr>,
         \<lparr>seq_region_name = Some ''chr17'', gd_start = Some 30, gd_end = Some 80,
          gd_strand = Some 1, display_name = Some ''A''\<rparr>])
     0 True True
   = Inr [\<lparr>b_chr = Some ''chr17'', b_start = 30, b_end = 100, b_gene = ''A''\<rparr>]"
  by code_simp

section \<open>Merging the entries of a gene\<close>

lemma set_map_filter_conv:
  "set (List.map_filter f xs) = {y. \<exists>x \<in> set xs. f x = Some y}"
  by (induction xs) (auto split: option.splits)

lemma set_group_keys: "set (group_keys df) = {g. Some g \<in> v_gene ` set df}"
proof -
  have "set (group_keys df) = {g. \<exists>r \<in> set df. v_gene r = Some g}"
    by (simp add: group_keys_def set_map_filter_conv)
  also have "\<dots> = {g. Some g \<in> v_gene ` set df}"
    by (auto simp: image_iff) (metis)
  finally show ?thesis .
qed

lemma distinct_group_keys: "distinct (group_keys df)"
  by (simp add: group_keys_def)

lemma sorted_group_keys: "sorted (group_keys df)"
  by (simp add: group_keys_def)

lemma group_of_nonempty: "Some g \<in> v_gene ` set df \<Longrightarrow> group_of df g \<noteq> []"
  by (auto simp: group_of_def filter_empty_conv)

lemma fold_min_Min: "fold min (map f rs) (f r) = Min (f ` set (r # rs))"
  using Min.set_eq_fold [of "f r" "map f rs"] by simp

lemma fold_max_Max: "fold max (map f rs) (f r) = Max (f ` set (r # rs))"
  using Max.set_eq_fold [of "f r" "map f rs"] by simp

lemma agg_group_Some:
  "group_of df g \<noteq> [] \<Longrightarrow>
     agg_group df g =
       Some \<lparr>b_chr = first_valid (map v_chr (group_of df g)),
             b_start = Min (v_start ` set (group_of df g)),
             b_end = Max (v_end ` set (group_of df g)),
             b_gene = g\<rparr>"
proof (cases "group_of df g")
  case Nil
  assume "group_of df g \<noteq> []"
  with Nil show ?thesis by simp
next
  case (Cons r rs)
  have lo: "fold min (map v_start rs) (v_start r) = Min (v_start ` set (group_of df g))"
    unfolding Cons by (rule fold_min_Min)
  have hi: "fold max (map v_end rs) (v_end r) = Max (v_end ` set (group_of df g))"
    unfolding Cons by (rule fold_max_Max)
  have "agg_group df g =
       Some \<lparr>b_chr = first_valid (map v_chr (r # rs)),
             b_start = fold min (map v_start rs) (v_start r),
             b_end = fold max (map v_end rs) (v_end r),
             b_gene = g\<rparr>"
    by (simp add: agg_group_def Cons)
  then show ?thesis
    unfolding lo hi Cons [symmetric] .
qed

lemma agg_group_gene: "agg_group df k = Some m \<Longrightarrow> b_gene m = k"
  by (auto simp: agg_group_def split: list.splits)

lemma filter_map_filter_key:
  "distinct ks \<Longrightarrow> g \<in> set ks \<Longrightarrow> f g = Some m \<Longrightarrow>
   (\<And>k m'. f k = Some m' \<Longrightarrow> key m' = k) \<Longrightarrow>
   filter (\<lambda>m'. key m' = g) (List.map_filter f ks) = [m]"
proof (induction ks)
  case Nil
  then show ?case by simp
next
  case (Cons k ks)
  show ?case
  proof (cases "k = g")
    case True
    with Cons.prems have notin: "g \<notin> set ks" by simp
    have "filter (\<lambda>m'. key m' = g) (List.map_filter f ks) = []"
      using notin Cons.prems(4)
      by (auto simp: filter_empty_conv set_map_filter_conv)
    with True Cons.prems(3,4) show ?thesis
      by (simp add: List.map_filter_simps)
  next
    case False
    with Cons.prems have "g \<in> set ks" "distinct ks" by auto
    from Cons.IH [OF this(2) this(1) Cons.prems(3) Cons.prems(4)]
    have ih: "filter (\<lambda>m'. key m' = g) (List.map_filter f ks) = [m]" .
    show ?thesis
    proof (cases "f k")
      case None
      with ih show ?thesis by (simp add: List.map_filter_simps)
    next
      case (Some m')
      with Cons.prems(4) have "key m' = k" by simp
      with False Some ih show ?thesis by (simp add: List.map_filter_simps)
    qed
  qed
qed

lemma groupby_gene_agg_group:
  assumes "Some g \<in> v_gene ` set df"
  shows "filter (\<lambda>m. b_gene m = g) (groupby_gene_agg df)
      = [\<lparr>b_chr = first_valid (map v_chr (group_of df g)),
          b_start = Min (v_start ` set (group_of df g)),
          b_end = Max (v_end ` set (group_of df g)),
          b_gene = g\<rparr>]"
  unfolding groupby_gene_agg_def
proof (rule filter_map_filter_key)
  show "distinct (group_keys df)" by (rule distinct_group_keys)
  show "g \<in> set (group_keys df)" using assms by (simp add: set_group_keys)
  show "agg_group df g = Some \<lparr>b_chr = first_valid (map v_chr (group_of df g)),
          b_start = Min (v_start ` set (group_of df g)),
          b_end = Max (v_end ` set (group_of df g)),
          b_gene = g\<rparr>"
    by (rule agg_group_Some [OF group_of_nonempty [OF assms]])
  show "\<And>k m'. agg_group df k = Some m' \<Longrightarrow> b_gene m' = k"
    by (rule agg_group_gene)
qed

lemma set_groupby_genes:
  "b_gene ` set (groupby_gene_agg df) = {g. Some g \<in> v_gene ` set df}"
proof (intro set_eqI iffI)
  fix k
  assume "k \<in> b_gene ` set (groupby_gene_agg df)"
  then obtain m where m: "m \<in> set (groupby_gene_agg df)" and k: "k = b_gene m"
    by auto
  from m obtain k' where k': "k' \<in> set (group_keys df)" and agg: "agg_group df k' = Some m"
    by (auto simp: groupby_gene_agg_def set_map_filter_conv)
  from agg have "b_gene m = k'" by (rule agg_group_gene)
  with k k' show "k \<in> {g. Some g \<in> v_gene ` set df}"
    by (simp add: set_group_keys)
next
  fix k
  assume "k \<in> {g. Some g \<in> v_gene ` set df}"
  then have g: "Some k \<in> v_gene ` set df" by simp
  from groupby_gene_agg_group [OF g]
  obtain m where "filter (\<lambda>m. b_gene m = k) (groupby_gene_agg df) = [m]"
    by blast
  then have "m \<in> set (filter (\<lambda>m. b_gene m = k) (groupby_gene_agg df))"
    by simp
  then have "m \<in> set (groupby_gene_agg df)" "b_gene m = k"
    by simp_all
  then show "k \<in> b_gene ` set (groupby_gene_agg df)"
    by blast
qed

text \<open>
  Claim C5.  For every label that occurs in the repaired rows, the merged table has exactly
  one row with that label; its start is the least start of the group, its end the greatest
  end, and its contig the first contig present in the group, which is the contig of the
  first member whenever that member has one.  The table has no other labels.  The spans
  \<open>(10, 50)\<close> and \<open>(5, 40)\<close> of one label merge to \<open>(5, 50)\<close>.
\<close>

theorem groupby_gene_agg_merge:
  "Some g \<in> v_gene ` set df \<Longrightarrow>
     filter (\<lambda>m. b_gene m = g) (groupby_gene_agg df)
       = [\<lparr>b_chr = first_valid (map v_chr (group_of df g)),
           b_start = Min (v_start ` set (group_of df g)),
           b_end = Max (v_end ` set (group_of df g)),
           b_gene = g\<rparr>]
     \<and> (\<forall>r rs c. group_of df g = r # rs \<and> v_chr r = Some c
           \<longrightarrow> first_valid (map v_chr (group_of df g)) = Some c)
     \<and> b_gene ` set (groupby_gene_agg df) = {k. Some k \<in> v_gene ` set df}
     \<and> groupby_gene_agg
          [\<lparr>v_chr = Some ''chr1'', v_start = 10, v_end = 50, v_gene = Some ''A''\<rparr>,
           \<lparr>v_chr = Some ''chr1'', v_start = 5, v_end = 40, v_gene = Some ''A''\<rparr>]
        = [\<lparr>b_chr = Some ''chr1'', b_start = 5, b_end = 50, b_gene = ''A''\<rparr>]"
proof (intro conjI)
  assume g: "Some g \<in> v_gene ` set df"
  show "filter (\<lambda>m. b_gene m = g) (groupby_gene_agg df)
       = [\<lparr>b_chr = first_valid (map v_chr (group_of df g)),
           b_start = Min (v_start ` set (group_of df g)),
           b_end = Max (v_end ` set (group_of df g)),
           b_gene = g\<rparr>]"
    by (rule groupby_gene_agg_group [OF g])
  show "\<forall>r rs c. group_of df g = r # rs \<and> v_chr r = Some c
           \<longrightarrow> first_valid (map v_chr (group_of df g)) = Some c"
    by auto
  show "b_gene ` set (groupby_gene_agg df) = {k. Some k \<in> v_gene ` set df}"
    by (rule set_groupby_genes)
  show "groupby_gene_agg
          [\<lparr>v_chr = Some ''chr1'', v_start = 10, v_end = 50, v_gene = Some ''A''\<rparr>,
           \<lparr>v_chr = Some ''chr1'', v_start = 5, v_end = 40, v_gene = Some ''A''\<rparr>]
        = [\<lparr>b_chr = Some ''chr1'', b_start = 5, b_end = 50, b_gene = ''A''\<rparr>]"
    by code_simp
qed

theorem groupby_gene_agg_merge_witness:
  "Some ''A'' \<in> v_gene ` set
       [\<lparr>v_chr = Some ''chr1'', v_start = 10, v_end = 50, v_gene = Some ''A''\<rparr>,
        \<lparr>v_chr = Some ''chr2'', v_start = 7, v_end = 90, v_gene = Some ''B''\<rparr>,
        \<lparr>v_chr = Some ''chr1'', v_start = 5, v_end = 40, v_gene = Some ''A''\<rparr>]
   \<and> filter (\<lambda>m. b_gene m = ''A'')
       (groupby_gene_agg
          [\<lparr>v_chr = Some ''chr1'', v_start = 10, v_end = 50, v_gene = Some ''A''\<rparr>,
           \<lparr>v_chr = Some ''chr2'', v_start = 7, v_end = 90, v_gene = Some ''B''\<rparr>,
           \<lparr>v_chr = Some ''chr1'', v_start = 5, v_end = 40, v_gene = Some ''A''\<rparr>])
     = [\<lparr>b_chr = Some ''chr1'', b_start = 5, b_end = 50, b_gene = ''A''\<rparr>]"
proof -
  have h: "Some ''A'' \<in> v_gene ` set
       [\<lparr>v_chr = Some ''chr1'', v_start = 10, v_end = 50, v_gene = Some ''A''\<rparr>,
        \<lparr>v_chr = Some ''chr2'', v_start = 7, v_end = 90, v_gene = Some ''B''\<rparr>,
        \<lparr>v_chr = Some ''chr1'', v_start = 5, v_end = 40, v_gene = Some ''A''\<rparr>]"
    by simp
  from groupby_gene_agg_merge [OF h] h show ?thesis
    by (simp add: group_of_def)
qed

section \<open>The order of the output\<close>

text \<open>Every key starts with a string and alternates between strings and numbers.\<close>

lemma dropWhile_head: "dropWhile P xs = y # ys \<Longrightarrow> \<not> P y"
  by (metis hd_dropWhile list.sel(1) list.distinct(1))

lemma split_runs_alternates:
  "alternates (case s of [] \<Rightarrow> b | c # _ \<Rightarrow> \<not> is_digit c) (split_runs s)"
proof (induction s arbitrary: b rule: split_runs.induct)
  case 1
  then show ?case by simp
next
  case (2 c cs)
  show ?case
  proof (cases "is_digit c")
    case True
    have "alternates True (split_runs (dropWhile is_digit cs))"
    proof (cases "dropWhile is_digit cs")
      case Nil
      show ?thesis unfolding Nil by simp
    next
      case (Cons y ys)
      then have y: "\<not> is_digit y" by (rule dropWhile_head)
      from "2.IH"(1) [OF True, of True] show ?thesis
        unfolding Cons using y by simp
    qed
    with True show ?thesis by simp
  next
    case False
    have "alternates False (split_runs (dropWhile (\<lambda>d. \<not> is_digit d) cs))"
    proof (cases "dropWhile (\<lambda>d. \<not> is_digit d) cs")
      case Nil
      show ?thesis unfolding Nil by simp
    next
      case (Cons y ys)
      have y: "is_digit y"
        using dropWhile_head [OF Cons] by simp
      from "2.IH"(2) [OF False, of False] show ?thesis
        unfolding Cons using y by simp
    qed
    with False show ?thesis by simp
  qed
qed

lemma natsort_key_alternates: "alternates True (natsort_key c)"
proof (cases c)
  case None
  then show ?thesis by (simp add: natsort_key_def)
next
  case (Some s)
  show ?thesis
  proof (cases "split_runs s")
    case Nil
    with Some show ?thesis by (simp add: natsort_key_def sep_inserter_def)
  next
    case (Cons t ts)
    then obtain ch cs where s: "s = ch # cs" by (cases s) auto
    from split_runs_alternates [of True s] s
    have a: "alternates (\<not> is_digit ch) (split_runs s)" by simp
    show ?thesis
    proof (cases "is_digit ch")
      case True
      with a s Some show ?thesis
        by (simp add: natsort_key_def sep_inserter_def)
    next
      case False
      with a s Some show ?thesis
        by (simp add: natsort_key_def sep_inserter_def)
    qed
  qed
qed

lemma map_insort_key:
  "map g (insort_key (\<lambda>y. f (g y)) y ys) = insort_key f (g y) (map g ys)"
  by (induction ys) simp_all

lemma map_sort_key:
  "map g (sort_key (\<lambda>y. f (g y)) ys) = sort_key f (map g ys)"
  by (induction ys) (simp_all add: map_insort_key)

text \<open>Reading a list at the positions of its stable sort gives the sorted list.\<close>

lemma nth_sorted_positions:
  "map ((!) xs) (map fst (sort_key (\<lambda>q. f (snd q)) (enumerate 0 xs))) = sort_key f xs"
proof -
  let ?S = "sort_key (\<lambda>q. f (snd q)) (enumerate 0 xs)"
  have "\<forall>q \<in> set ?S. xs ! fst q = snd q"
    by (auto simp: in_set_enumerate_eq)
  then have "map ((!) xs) (map fst ?S) = map snd ?S"
    by simp
  also have "\<dots> = sort_key f (map snd (enumerate 0 xs))"
    by (rule map_sort_key)
  finally show ?thesis by simp
qed

lemma mset_sorted_positions:
  "mset (map fst (sort_key h (enumerate 0 xs))) = mset [0..<length xs]"
proof -
  have "mset (map fst (sort_key h (enumerate 0 xs))) = mset (map fst (enumerate 0 xs))"
    by (simp only: mset_map mset_sort)
  then show ?thesis by simp
qed

lemma index_natsorted_nth:
  "map ((!) col) (index_natsorted col) = sort_key natsort_key col"
  unfolding index_natsorted_def case_prod_unfold by (rule nth_sorted_positions)

lemma mset_index_natsorted: "mset (index_natsorted col) = mset [0..<length col]"
  unfolding index_natsorted_def by (rule mset_sorted_positions)

lemma mset_argsort: "mset (argsort xs) = mset [0..<length xs]"
  unfolding argsort_def by (rule mset_sorted_positions)

lemma argsort_nth: "map ((!) xs) (argsort xs) = sort xs"
  unfolding argsort_def using nth_sorted_positions [of xs "\<lambda>x. x"] by simp

text \<open>The ranks invert the positions.\<close>

lemma argsort_inverse:
  assumes p: "mset p = mset [0..<n]"
  shows "map ((!) (argsort p)) p = [0..<n]"
proof (rule nth_equalityI)
  from p have len: "length p = n"
    using mset_eq_length by fastforce
  then show "length (map ((!) (argsort p)) p) = length [0..<n]" by simp
  let ?k = "argsort p"
  have klen: "length ?k = n"
    using mset_eq_length [OF mset_argsort [of p]] len by simp
  have kset: "set ?k = {0..<n}"
    using mset_eq_setD [OF mset_argsort [of p]] len by simp
  have "sort p = [0..<n]"
    using properties_for_sort [of "[0..<n]" p] p by simp
  then have pk: "map ((!) p) ?k = [0..<n]"
    by (simp add: argsort_nth)
  fix j
  assume "j < length (map ((!) (argsort p)) p)"
  then have j: "j < n" using len by simp
  then have "j \<in> set ?k" using kset by simp
  then obtain i where i: "i < n" "?k ! i = j"
    using klen by (auto simp: in_set_conv_nth)
  from pk i(1) klen have "p ! (?k ! i) = i"
    by (metis nth_map nth_upt add_0 length_map length_upt diff_zero)
  with i have "p ! j = i" by simp
  with i j len show "map ((!) (argsort p)) p ! j = [0..<n] ! j"
    by simp
qed

lemma zip_as_map:
  "length xs = length ys \<Longrightarrow> zip xs ys = map (\<lambda>i. (xs ! i, ys ! i)) [0..<length ys]"
  by (rule nth_equalityI) simp_all

lemma sorted_by_first:
  fixes ps :: "('a::linorder \<times> 'b::linorder) list"
  assumes "sorted_wrt (<) (map fst ps)"
  shows "sorted ps"
proof -
  from assms have "sorted_wrt (\<lambda>x y. fst x < fst y) ps"
    by (simp add: sorted_wrt_map)
  then show ?thesis
    by (rule sorted_wrt_mono_rel [rotated]) (auto simp: less_eq_prod_def)
qed

text \<open>The positions of the natural order of a column of the table.\<close>

lemma index_natsorted_rows:
  fixes merged :: "bed list"
  shows "map ((!) merged) (index_natsorted (map b_chr merged))
     = sort_key (\<lambda>m. natsort_key (b_chr m)) merged"
proof -
  let ?col = "map b_chr merged"
  let ?g = "\<lambda>q :: nat \<times> bed. (fst q, b_chr (snd q))"
  let ?S = "sort_key (\<lambda>q. natsort_key (b_chr (snd q))) (enumerate 0 merged)"
  have e: "enumerate 0 ?col = map ?g (enumerate 0 merged)"
    by (simp add: enumerate_eq_zip zip_map2 case_prod_unfold)
  have "sort_key (\<lambda>q. natsort_key (snd q)) (enumerate 0 ?col) = map ?g ?S"
    unfolding e
    using map_sort_key [of ?g "\<lambda>q. natsort_key (snd q)" "enumerate 0 merged"]
    by simp
  then have "index_natsorted ?col = map fst ?S"
    by (simp add: index_natsorted_def case_prod_unfold comp_def)
  then show ?thesis
    using nth_sorted_positions [of merged "\<lambda>m. natsort_key (b_chr m)"] by simp
qed

text \<open>The two-key sort of the source is the stable natural sort by contig.\<close>

lemma sort_values_chr_start_stable:
  "sort_values_chr_start merged = sort_key (\<lambda>m. natsort_key (b_chr m)) merged"
proof -
  let ?n = "length merged"
  let ?col = "map b_chr merged"
  let ?p = "index_natsorted ?col"
  let ?k = "argsort ?p"
  let ?K = "zip ?k (map b_start merged)"
  let ?Z = "zip ?K merged"
  let ?h = "\<lambda>i. (?K ! i, merged ! i)"
  let ?C = "map ?h ?p"
  have p: "mset ?p = mset [0..<?n]"
    using mset_index_natsorted [of ?col] by simp
  have plen: "length ?p = ?n"
    using mset_eq_length [OF p] by simp
  have k: "mset ?k = mset [0..<?n]"
    using mset_argsort [of ?p] plen by simp
  have klen: "length ?k = ?n"
    using mset_eq_length [OF k] by simp
  have kdist: "distinct ?k"
    using mset_eq_imp_distinct_iff [OF k] by simp
  have Klen: "length ?K = ?n"
    using klen by simp
  have Z: "?Z = map ?h [0..<?n]"
    using zip_as_map [of ?K merged] Klen by simp
  have msetC: "mset ?Z = mset ?C"
    unfolding Z using p by (simp only: mset_map)
  have "map fst ?Z = ?K"
    using Klen by simp
  moreover have "distinct ?K"
    using kdist by (rule distinct_zipI1)
  ultimately have "distinct (map fst ?Z)" by simp
  then have inj: "inj_on fst (set ?Z)"
    by (simp add: distinct_map)
  have "map fst (map fst ?C) = map ((!) ?k) ?p"
  proof (rule nth_equalityI)
    show "length (map fst (map fst ?C)) = length (map ((!) ?k) ?p)" by simp
    fix j
    assume "j < length (map fst (map fst ?C))"
    then have j: "j < ?n" using plen by simp
    have "?p ! j \<in> set ?p" using j plen by simp
    then have "?p ! j < ?n"
      using mset_eq_setD [OF p] by simp
    then show "map fst (map fst ?C) ! j = map ((!) ?k) ?p ! j"
      using j plen klen by simp
  qed
  also have "\<dots> = [0..<?n]"
    by (rule argsort_inverse [OF p])
  finally have "sorted_wrt (<) (map fst (map fst ?C))"
    by simp
  then have sortedC: "sorted (map fst ?C)"
    by (rule sorted_by_first)
  have "sort_key fst ?Z = ?C"
    using msetC inj sortedC by (rule sort_key_inj_key_eq)
  then have "sort_values_chr_start merged = map snd ?C"
    by (simp add: sort_values_chr_start_def Let_def)
  also have "\<dots> = map ((!) merged) ?p"
    by simp
  finally show ?thesis
    by (simp only: index_natsorted_rows)
qed

lemma insort_key_lex:
  fixes f :: "'a \<Rightarrow> 'k::linorder" and g :: "'a \<Rightarrow> 's::linorder"
  shows "sorted (map (\<lambda>x. (f x, g x)) ys) \<Longrightarrow> \<forall>y \<in> set ys. g a \<le> g y \<Longrightarrow>
     sorted (map (\<lambda>x. (f x, g x)) (insort_key f a ys))"
proof (induction ys)
  case Nil
  then show ?case by simp
next
  case (Cons y ys)
  show ?case
  proof (cases "f a \<le> f y")
    case True
    have "(f a, g a) \<le> (f y, g y)"
      using True Cons.prems(2) by (auto simp: less_eq_prod_def)
    moreover have "\<forall>z \<in> set ys. (f y, g y) \<le> (f z, g z)"
      using Cons.prems(1) by simp
    ultimately have "\<forall>z \<in> set (y # ys). (f a, g a) \<le> (f z, g z)"
      by (auto intro: order_trans)
    with True Cons.prems(1) show ?thesis by simp
  next
    case False
    have ih: "sorted (map (\<lambda>x. (f x, g x)) (insort_key f a ys))"
      using Cons.IH Cons.prems by simp
    have "(f y, g y) \<le> (f a, g a)"
      using False by (auto simp: less_eq_prod_def)
    moreover have "\<forall>z \<in> set ys. (f y, g y) \<le> (f z, g z)"
      using Cons.prems(1) by simp
    ultimately have "\<forall>z \<in> set (insort_key f a ys). (f y, g y) \<le> (f z, g z)"
      by (auto simp: set_insort_key)
    with False ih show ?thesis by simp
  qed
qed

lemma sort_key_lex:
  fixes f :: "'a \<Rightarrow> 'k::linorder" and g :: "'a \<Rightarrow> 's::linorder"
  shows "sorted (map g xs) \<Longrightarrow> sorted (map (\<lambda>x. (f x, g x)) (sort_key f xs))"
proof (induction xs)
  case Nil
  then show ?case by simp
next
  case (Cons a xs)
  then have "sorted (map (\<lambda>x. (f x, g x)) (sort_key f xs))" by simp
  moreover have "\<forall>y \<in> set (sort_key f xs). g a \<le> g y"
    using Cons.prems by simp
  ultimately show ?case
    by (simp add: insort_key_lex)
qed

text \<open>
  The first \<open>sort_values\<close> orders the rows by start; the second one keeps that order
  among rows whose contigs have the same key, because the ranks it sorts by are all
  different.  The result holds for every start-sorted input of the second sort, whatever
  order the first sort leaves among equal starts (\<open>sort_key_lex\<close>).
\<close>

lemma sorted_output:
  "sorted (map (\<lambda>m. (natsort_key (b_chr m), b_start m))
     (sort_values_chr_start (sort_values_start merged)))"
  unfolding sort_values_chr_start_stable sort_values_start_def
  by (rule sort_key_lex) simp

lemma sorted_first_component:
  fixes f :: "'a \<Rightarrow> 'k::linorder" and g :: "'a \<Rightarrow> 's::linorder"
  assumes "sorted (map (\<lambda>x. (f x, g x)) xs)"
  shows "sorted (map f xs)"
proof -
  from assms have "sorted_wrt (\<lambda>x y. (f x, g x) \<le> (f y, g y)) xs"
    by (simp add: sorted_wrt_map)
  then have "sorted_wrt (\<lambda>x y. f x \<le> f y) xs"
    by (rule sorted_wrt_mono_rel [rotated]) (auto simp: less_eq_prod_def)
  then show ?thesis
    by (simp add: sorted_wrt_map)
qed

lemma natural_order_example:
  "sorted (map natsort_key [Some ''chr1'', Some ''chr2'', Some ''chr10'', Some ''chrX''])"
  "distinct (map natsort_key [Some ''chr10'', Some ''chr2'', Some ''chr1'', Some ''chrX''])"
  by code_simp+

lemma natural_order_unique:
  assumes m: "mset col = mset [Some ''chr10'', Some ''chr2'', Some ''chr1'', Some ''chrX'']"
    and s: "sorted (map natsort_key col)"
  shows "col = [Some ''chr1'', Some ''chr2'', Some ''chr10'', Some ''chrX'']"
proof -
  let ?xs = "[Some ''chr10'', Some ''chr2'', Some ''chr1'', Some ''chrX'']"
  let ?ys = "[Some ''chr1'', Some ''chr2'', Some ''chr10'', Some ''chrX'']"
  have inj: "inj_on natsort_key (set ?xs)"
    using natural_order_example(2) by (simp only: distinct_map)
  have "mset ?xs = mset ?ys" by simp
  from sort_key_inj_key_eq [OF this inj natural_order_example(1)]
  have a: "sort_key natsort_key ?xs = ?ys" .
  have "mset ?xs = mset col" using m by simp
  from sort_key_inj_key_eq [OF this inj s]
  have "sort_key natsort_key ?xs = col" .
  with a show ?thesis by simp
qed

text \<open>
  Claim C4.  Whenever \<open>process_bed_file\<close> returns a table, its rows are in ascending
  order of the pair of the natural-order key of the contig and the start.  Numeric runs
  count by value: a table whose contigs are \<open>chr10\<close>, \<open>chr2\<close>, \<open>chr1\<close> and
  \<open>chrX\<close>, in whatever order and with whatever starts, comes out in the order
  \<open>chr1\<close>, \<open>chr2\<close>, \<open>chr10\<close>, \<open>chrX\<close>.
\<close>

theorem process_bed_file_sorted:
  "process_bed_file df extend_bp remove_alt remove_fix = Inr out \<Longrightarrow>
     sorted (map (\<lambda>m. (natsort_key (b_chr m), b_start m)) out)
     \<and> (mset (map b_chr out)
          = mset [Some ''chr10'', Some ''chr2'', Some ''chr1'', Some ''chrX'']
        \<longrightarrow> map b_chr out = [Some ''chr1'', Some ''chr2'', Some ''chr10'', Some ''chrX''])"
proof -
  assume run: "process_bed_file df extend_bp remove_alt remove_fix = Inr out"
  then obtain merged where out: "out = sort_values_chr_start (sort_values_start merged)"
    by (auto simp: process_bed_file_def split: sum.splits)
  have s: "sorted (map (\<lambda>m. (natsort_key (b_chr m), b_start m)) out)"
    unfolding out by (rule sorted_output)
  then have "sorted (map (\<lambda>m. natsort_key (b_chr m)) out)"
    by (rule sorted_first_component)
  then have "sorted (map natsort_key (map b_chr out))"
    by (simp add: comp_def)
  then have "mset (map b_chr out)
          = mset [Some ''chr10'', Some ''chr2'', Some ''chr1'', Some ''chrX'']
        \<longrightarrow> map b_chr out = [Some ''chr1'', Some ''chr2'', Some ''chr10'', Some ''chrX'']"
    using natural_order_unique by blast
  with s show ?thesis by simp
qed

theorem process_bed_file_sorted_witness:
  "process_bed_file
       [\<lparr>r_chr = Some ''chr10'', r_start = Some 1, r_end = Some 9, r_gene = Some ''G1''\<rparr>,
        \<lparr>r_chr = Some ''chr2'', r_start = Some 2, r_end = Some 9, r_gene = Some ''G2''\<rparr>,
        \<lparr>r_chr = Some ''chr1'', r_start = Some 3, r_end = Some 9, r_gene = Some ''G3''\<rparr>,
        \<lparr>r_chr = Some ''chrX'', r_start = Some 0, r_end = Some 9, r_gene = Some ''G4''\<rparr>]
       0 True True
     = Inr [\<lparr>b_chr = Some ''chr1'', b_start = 3, b_end = 9, b_gene = ''G3''\<rparr>,
            \<lparr>b_chr = Some ''chr2'', b_start = 2, b_end = 9, b_gene = ''G2''\<rparr>,
            \<lparr>b_chr = Some ''chr10'', b_start = 1, b_end = 9, b_gene = ''G1''\<rparr>,
            \<lparr>b_chr = Some ''chrX'', b_start = 0, b_end = 9, b_gene = ''G4''\<rparr>]
   \<and> sorted (map (\<lambda>m. (natsort_key (b_chr m), b_start m))
           [\<lparr>b_chr = Some ''chr1'', b_start = 3, b_end = 9, b_gene = ''G3''\<rparr>,
            \<lparr>b_chr = Some ''chr2'', b_start = 2, b_end = 9, b_gene = ''G2''\<rparr>,
            \<lparr>b_chr = Some ''chr10'', b_start = 1, b_end = 9, b_gene = ''G1''\<rparr>,
            \<lparr>b_chr = Some ''chrX'', b_start = 0, b_end = 9, b_gene = ''G4''\<rparr>])"
proof -
  have run: "process_bed_file
       [\<lparr>r_chr = Some ''chr10'', r_start = Some 1, r_end = Some 9, r_gene = Some ''G1''\<rparr>,
        \<lparr>r_chr = Some ''chr2'', r_start = Some 2, r_end = Some 9, r_gene = Some ''G2''\<rparr>,
        \<lparr>r_chr = Some ''chr1'', r_start = Some 3, r_end = Some 9, r_gene = Some ''G3''\<rparr>,
        \<lparr>r_chr = Some ''chrX'', r_start = Some 0, r_end = Some 9, r_gene = Some ''G4''\<rparr>]
       0 True True
     = Inr [\<lparr>b_chr = Some ''chr1'', b_start = 3, b_end = 9, b_gene = ''G3''\<rparr>,
            \<lparr>b_chr = Some ''chr2'', b_start = 2, b_end = 9, b_gene = ''G2''\<rparr>,
            \<lparr>b_chr = Some ''chr10'', b_start = 1, b_end = 9, b_gene = ''G1''\<rparr>,
            \<lparr>b_chr = Some ''chrX'', b_start = 0, b_end = 9, b_gene = ''G4''\<rparr>]"
    by code_simp
  from process_bed_file_sorted [OF run] run show ?thesis
    by blast
qed

end
